theory Spec2Isabelle
  imports Main
begin

section \<open>The service worker of the Behavana PWA\<close>

text \<open>
  A shallow embedding of \<^verbatim>\<open>service-worker.js\<close>. The script is a set of event listeners
  over the browser's cache storage and network. The listeners are embedded as functions
  that take the cache storage (and the network, where the listener fetches) and return
  what the listener's promise settles with, the work it started without awaiting it, and
  the cache storage at that moment.
\<close>

subsection \<open>Requests, responses, errors\<close>

text \<open>
  A request carries the three properties the script reads: \<^verbatim>\<open>request.method\<close>,
  \<^verbatim>\<open>request.url\<close> and \<^verbatim>\<open>request.destination\<close>. Request headers are not part of the
  model: two requests with the same URL carry the same headers. A response carries its
  status, its status text, its body and the field values of its \<^verbatim>\<open>Vary\<close> headers (empty
  when it has none). Responses are immutable values: the consumption of a body stream is
  not part of the model, so \<open>clone\<close> returns an equal value.
\<close>

record request =
  "method" :: string
  url :: string
  destination :: string

record response =
  status :: nat
  statusText :: string
  body :: string
  vary :: "string list"

text \<open>The result of \<^verbatim>\<open>new URL(request.url)\<close>, with the two properties the script reads.\<close>

record URL =
  protocol :: string
  origin :: string

datatype error = TypeError

text \<open>
  The network: \<^verbatim>\<open>fetch(request)\<close> resolves with a response (\<open>Some\<close>) or rejects
  (\<open>None\<close>). A network that is unavailable rejects every fetch.
\<close>

type_synonym network = "request \<Rightarrow> response option"

definition offline :: network where
  "offline = (\<lambda>_. None)"

text \<open>\<^verbatim>\<open>new Request(u)\<close> for a URL string: a GET request with no destination.\<close>

definition Request :: "string \<Rightarrow> request" where
  "Request u = \<lparr>method = ''GET'', url = u, destination = []\<rparr>"

text \<open>\<^verbatim>\<open>new Response(body, { status, statusText })\<close>: a response without headers.\<close>

definition Response :: "string \<Rightarrow> nat \<Rightarrow> string \<Rightarrow> response" where
  "Response b s t = \<lparr>status = s, statusText = t, body = b, vary = []\<rparr>"

definition clone :: "response \<Rightarrow> response" where
  "clone v = v"

text \<open>\<^verbatim>\<open>response.ok\<close>: the status is in the range 200 to 299.\<close>

definition ok :: "response \<Rightarrow> bool" where
  "ok v = (200 \<le> status v \<and> status v \<le> 299)"

subsection \<open>The browser's cache storage\<close>

text \<open>
  A cache (a generation) is the list of its (request, response) entries in insertion
  order. The cache storage is the list of its named caches in creation order, which is
  the order in which \<^verbatim>\<open>caches.keys()\<close> enumerates them and \<^verbatim>\<open>caches.match\<close> searches them.
  An entry matches a request when the request is a GET and the URLs are equal (URL
  fragments are not modelled; the headers named by a stored \<^verbatim>\<open>Vary\<close> field always agree,
  since requests with the same URL carry the same headers). URL strings are kept as
  written: a relative reference such as \<^verbatim>\<open>./index.html\<close> stands for the absolute URL the
  worker's location resolves it to.
\<close>

type_synonym cache = "(request \<times> response) list"

type_synonym CacheStorage = "(string \<times> cache) list"

definition cache_match :: "cache \<Rightarrow> request \<Rightarrow> response option" where
  "cache_match c r =
     (if method r \<noteq> ''GET'' then None
      else map_option snd (find (\<lambda>(k, v). url k = url r) c))"

text \<open>The write itself: entries that match the request are replaced by the new one.\<close>

definition cache_store :: "cache \<Rightarrow> request \<Rightarrow> response \<Rightarrow> cache" where
  "cache_store c r v = filter (\<lambda>(k, w). url k \<noteq> url r) c @ [(r, v)]"

text \<open>
  \<^verbatim>\<open>cache.put(request, response)\<close> rejects with a TypeError when the scheme of the request's
  URL is neither http nor https, when the request is not a GET, when the response has
  status 206, and when a \<^verbatim>\<open>Vary\<close> field value of the response is \<^verbatim>\<open>*\<close>. The scheme is read
  with the platform's URL parser, a parameter.
\<close>

definition cache_put :: "(string \<Rightarrow> URL) \<Rightarrow> cache \<Rightarrow> request \<Rightarrow> response \<Rightarrow> error + cache" where
  "cache_put new_URL c r v =
     (if (protocol (new_URL (url r)) \<noteq> ''http:'' \<and> protocol (new_URL (url r)) \<noteq> ''https:'')
         \<or> method r \<noteq> ''GET''
      then Inl TypeError
      else if status v = 206 then Inl TypeError
      else if ''*'' \<in> set (vary v) then Inl TypeError
      else Inr (cache_store c r v))"

text \<open>
  \<^verbatim>\<open>cache.addAll(urls)\<close> fetches every URL and writes nothing unless every fetch resolves
  with an \<open>ok\<close> response whose status is not 206 and that has no \<^verbatim>\<open>Vary\<close> field value
  \<^verbatim>\<open>*\<close>; otherwise it rejects with a TypeError. Its scheme check is left out: the lists
  the script passes hold https URLs and references relative to the worker's own location.
\<close>

fun fetch_all :: "network \<Rightarrow> string list \<Rightarrow> (request \<times> response) list option" where
  "fetch_all net [] = Some []"
| "fetch_all net (u # us) =
     (case net (Request u) of
        None \<Rightarrow> None
      | Some v \<Rightarrow>
          if ok v \<and> status v \<noteq> 206 \<and> ''*'' \<notin> set (vary v)
          then (case fetch_all net us of None \<Rightarrow> None | Some es \<Rightarrow> Some ((Request u, v) # es))
          else None)"

definition cache_addAll :: "network \<Rightarrow> cache \<Rightarrow> string list \<Rightarrow> error + cache" where
  "cache_addAll net c urls =
     (case fetch_all net urls of
        None \<Rightarrow> Inl TypeError
      | Some es \<Rightarrow> Inr (fold (\<lambda>(r, v) c'. cache_store c' r v) es c))"

definition caches_keys :: "CacheStorage \<Rightarrow> string list" where
  "caches_keys st = map fst st"

text \<open>\<^verbatim>\<open>caches.open(name)\<close> creates the cache when no cache of that name exists.\<close>

definition caches_open :: "string \<Rightarrow> CacheStorage \<Rightarrow> CacheStorage" where
  "caches_open name st = (if name \<in> set (caches_keys st) then st else st @ [(name, [])])"

definition caches_delete :: "string \<Rightarrow> CacheStorage \<Rightarrow> CacheStorage" where
  "caches_delete name st = filter (\<lambda>(n, c). n \<noteq> name) st"

text \<open>\<^verbatim>\<open>caches.match(request)\<close>: the first match over all caches, in creation order.\<close>

fun caches_match :: "CacheStorage \<Rightarrow> request \<Rightarrow> response option" where
  "caches_match [] r = None"
| "caches_match ((n, c) # st) r =
     (case cache_match c r of Some v \<Rightarrow> Some v | None \<Rightarrow> caches_match st r)"

text \<open>The cache of a given name, if the storage has one.\<close>

definition generation :: "CacheStorage \<Rightarrow> string \<Rightarrow> cache option" where
  "generation st name = map_of st name"

text \<open>
  A cache object obtained from \<^verbatim>\<open>caches.open(name)\<close> is identified with its name: an
  operation on it reads and updates the cache of that name. When the cache has been
  deleted in between, the operation runs on the orphaned (here: empty) cache and leaves
  the storage as it is. The first component is what the operation's promise settles with.
\<close>

definition with_cache :: "string \<Rightarrow> (cache \<Rightarrow> cache) \<Rightarrow> CacheStorage \<Rightarrow> CacheStorage" where
  "with_cache name f st = map (\<lambda>(n, c). if n = name then (n, f c) else (n, c)) st"

definition on_cache ::
  "string \<Rightarrow> (cache \<Rightarrow> error + cache) \<Rightarrow> CacheStorage \<Rightarrow> (error + unit) \<times> CacheStorage" where
  "on_cache name f st =
     (case f (case generation st name of Some c \<Rightarrow> c | None \<Rightarrow> []) of
        Inl e \<Rightarrow> (Inl e, st)
      | Inr c' \<Rightarrow> (Inr (), with_cache name (\<lambda>_. c') st))"

subsection \<open>Configuration\<close>

definition CACHE_NAME :: string where
  "CACHE_NAME = ''behavana-v1.0.0''"

definition CACHE_URLS :: "string list" where
  "CACHE_URLS = [''./'', ''./index.html'', ''./styles.css'', ''./manifest.json'']"

definition EXTERNAL_CACHE_NAME :: string where
  "EXTERNAL_CACHE_NAME = ''behavana-external-v1''"

definition EXTERNAL_URLS :: "string list" where
  "EXTERNAL_URLS =
     [''https://fonts.googleapis.com/css2?family=Inter:wght@300;400;500;600;700;800&display=swap'',
      ''https://fonts.gstatic.com/s/inter/v12/UcCO3FwrK3iLTeHuS_fvQtMwCp50KnMw2boKoduKmMEVuLyfAZ9hiA.woff2'']"

definition DATA_CACHE_NAME :: string where
  "DATA_CACHE_NAME = ''behavana-data-v1''"

subsection \<open>Install\<close>

text \<open>
  The promise given to \<^verbatim>\<open>event.waitUntil\<close> is a \<^verbatim>\<open>Promise.all\<close> of the two pre-populations,
  followed by \<^verbatim>\<open>self.skipWaiting()\<close>. The rejection of the primary \<^verbatim>\<open>addAll\<close> rejects the
  whole promise; the rejection of the external \<^verbatim>\<open>addAll\<close> is caught (and logged).
  \<^verbatim>\<open>Promise.all\<close> does not cancel the other branch, so the external entries are written
  whether or not the primary write succeeds. The two branches write to different caches,
  so the order in which they complete does not show in the result.
\<close>

record install_result =
  waitUntil :: "error + unit"
  skipWaiting :: bool
  storage :: CacheStorage

definition install_listener :: "network \<Rightarrow> CacheStorage \<Rightarrow> install_result" where
  "install_listener net st =
     (let st1 = caches_open CACHE_NAME st;
          st2 = caches_open EXTERNAL_CACHE_NAME st1;
          (primary, st3) = on_cache CACHE_NAME (\<lambda>cache. cache_addAll net cache CACHE_URLS) st2;
          (external, st4) =
            on_cache EXTERNAL_CACHE_NAME (\<lambda>cache. cache_addAll net cache EXTERNAL_URLS) st3;
          caught = (case external of Inl err \<Rightarrow> Inr () | Inr u \<Rightarrow> Inr u);
          all = (case primary of Inl e \<Rightarrow> Inl e | Inr _ \<Rightarrow> caught)
      in case all of
           Inl e \<Rightarrow> \<lparr>waitUntil = Inl e, skipWaiting = False, storage = st4\<rparr>
         | Inr _ \<Rightarrow> \<lparr>waitUntil = Inr (), skipWaiting = True, storage = st4\<rparr>)"

text \<open>
  What the platform does with the outcome of the install event: a worker whose install
  promise rejected is discarded and never activates; an installed worker waits, unless
  \<^verbatim>\<open>skipWaiting\<close> was called.
\<close>

datatype phase = Redundant | Waiting | Activating

definition after_install :: "install_result \<Rightarrow> phase" where
  "after_install res =
     (case waitUntil res of
        Inl e \<Rightarrow> Redundant
      | Inr _ \<Rightarrow> if skipWaiting res then Activating else Waiting)"

subsection \<open>Activate\<close>

text \<open>
  \<^verbatim>\<open>caches.keys()\<close> is mapped to one deletion per name that is none of the three
  configured names; \<^verbatim>\<open>self.clients.claim()\<close> follows.
\<close>

definition activate_listener :: "CacheStorage \<Rightarrow> CacheStorage" where
  "activate_listener st =
     fold (\<lambda>cacheName s.
             if cacheName \<noteq> CACHE_NAME \<and> cacheName \<noteq> EXTERNAL_CACHE_NAME
                \<and> cacheName \<noteq> DATA_CACHE_NAME
             then caches_delete cacheName s
             else s)
          (caches_keys st) st"

subsection \<open>Fetch\<close>

text \<open>
  Work that a function starts and does not await: the background refresh
  \<^verbatim>\<open>updateCache(request, cacheName)\<close> and the write \<^verbatim>\<open>cache.put(request, response)\<close> into the
  cache opened under \<open>cacheName\<close>. Such work is returned as a list of pending tasks; it
  takes effect when the task is run, after the function that started it has returned.
\<close>

datatype task =
  UpdateCache request string
| CachePut string request response

text \<open>
  \<^verbatim>\<open>updateCache\<close>: the fetch and \<^verbatim>\<open>caches.open\<close> are awaited, the \<^verbatim>\<open>cache.put\<close> is not. A
  rejected fetch is swallowed by the empty \<^verbatim>\<open>catch\<close>.
\<close>

definition updateCache :: "network \<Rightarrow> request \<Rightarrow> string \<Rightarrow> CacheStorage \<Rightarrow> task list \<times> CacheStorage" where
  "updateCache net request cacheName st =
     (case net request of
        None \<Rightarrow> ([], st)
      | Some networkResponse \<Rightarrow>
          if status networkResponse = 200
          then ([CachePut cacheName request (clone networkResponse)], caches_open cacheName st)
          else ([], st))"

text \<open>
  \<^verbatim>\<open>cacheFirstStrategy\<close>: the value the returned promise resolves with (\<open>None\<close> is
  \<^verbatim>\<open>undefined\<close>), the work left pending, and the storage when it resolves.
\<close>

definition cacheFirstStrategy ::
  "network \<Rightarrow> request \<Rightarrow> string \<Rightarrow> CacheStorage \<Rightarrow> response option \<times> task list \<times> CacheStorage" where
  "cacheFirstStrategy net request cacheName st =
     (case caches_match st request of
        Some cachedResponse \<Rightarrow> (Some cachedResponse, [UpdateCache request cacheName], st)
      | None \<Rightarrow>
          (case net request of
             Some networkResponse \<Rightarrow>
               if status networkResponse = 200
               then (Some networkResponse,
                     [CachePut cacheName request (clone networkResponse)],
                     caches_open cacheName st)
               else (Some networkResponse, [], st)
           | None \<Rightarrow>
               if destination request = ''document''
               then (caches_match st (Request ''./index.html''), [], st)
               else (Some (Response [] 408 ''Offline''), [], st)))"

text \<open>
  The fetch listener either returns without calling \<^verbatim>\<open>event.respondWith\<close>, so that the
  browser handles the request as if there were no worker, or responds with the promise
  of \<open>cacheFirstStrategy\<close>. The parser \<^verbatim>\<open>new URL\<close> is the platform's and is a parameter.
\<close>

datatype fetch_outcome =
  NotIntercepted
| RespondWith "response option"

definition respondWith ::
  "response option \<times> task list \<times> CacheStorage \<Rightarrow> fetch_outcome \<times> task list \<times> CacheStorage" where
  "respondWith p = (case p of (v, ts, st) \<Rightarrow> (RespondWith v, ts, st))"

definition fetch_listener ::
  "(string \<Rightarrow> URL) \<Rightarrow> network \<Rightarrow> request \<Rightarrow> CacheStorage
     \<Rightarrow> fetch_outcome \<times> task list \<times> CacheStorage" where
  "fetch_listener new_URL net request st =
     (let url' = new_URL (url request) in
      if method request \<noteq> ''GET'' then (NotIntercepted, [], st)
      else if protocol url' = ''chrome-extension:'' then (NotIntercepted, [], st)
      else if origin url' = ''https://fonts.googleapis.com''
              \<or> origin url' = ''https://fonts.gstatic.com''
      then respondWith (cacheFirstStrategy net request EXTERNAL_CACHE_NAME st)
      else respondWith (cacheFirstStrategy net request CACHE_NAME st))"

text \<open>
  Running a pending task. The rejection of an un-awaited \<^verbatim>\<open>cache.put\<close> is handled by
  nobody and changes nothing.
\<close>

fun run_task ::
  "(string \<Rightarrow> URL) \<Rightarrow> network \<Rightarrow> task \<Rightarrow> CacheStorage \<Rightarrow> task list \<times> CacheStorage" where
  "run_task new_URL net (UpdateCache request cacheName) st = updateCache net request cacheName st"
| "run_task new_URL net (CachePut cacheName request v) st =
     ([], snd (on_cache cacheName (\<lambda>cache. cache_put new_URL cache request v) st))"

text \<open>The cache a task writes to, and the request it writes for.\<close>

fun task_cache :: "task \<Rightarrow> string" where
  "task_cache (UpdateCache request cacheName) = cacheName"
| "task_cache (CachePut cacheName request v) = cacheName"

fun task_request :: "task \<Rightarrow> request" where
  "task_request (UpdateCache request cacheName) = request"
| "task_request (CachePut cacheName request v) = request"

subsection \<open>Messages\<close>

text \<open>
  \<open>data\<close> is \<^verbatim>\<open>event.data.type\<close> when \<^verbatim>\<open>event.data\<close> is truthy and has a type, and
  \<open>None\<close> otherwise. The result is whether \<^verbatim>\<open>self.skipWaiting()\<close> was called, and the
  storage once the promise given to \<^verbatim>\<open>event.waitUntil\<close> has settled.
\<close>

definition message_listener :: "string option \<Rightarrow> CacheStorage \<Rightarrow> bool \<times> CacheStorage" where
  "message_listener data st =
     (data = Some ''SKIP_WAITING'',
      if data = Some ''CLEAR_CACHE''
      then fold (\<lambda>cacheName s. caches_delete cacheName s) (caches_keys st) st
      else st)"

subsection \<open>The worker as a transition system\<close>

text \<open>
  The state of the worker's origin: the cache storage and the work that is pending.
  An event is the dispatch of one listener, or the completion of the pending task at a
  given position (any pending task may be the next to complete).
\<close>

record sw =
  caches :: CacheStorage
  pending :: "task list"

datatype event =
  Install network
| Activate
| Fetch network request
| Message "string option"
| Complete network nat

fun step :: "(string \<Rightarrow> URL) \<Rightarrow> event \<Rightarrow> sw \<Rightarrow> sw" where
  "step new_URL (Install net) s = s\<lparr>caches := storage (install_listener net (caches s))\<rparr>"
| "step new_URL Activate s = s\<lparr>caches := activate_listener (caches s)\<rparr>"
| "step new_URL (Fetch net request) s =
     (case fetch_listener new_URL net request (caches s) of
        (out, ts, st) \<Rightarrow> \<lparr>caches = st, pending = pending s @ ts\<rparr>)"
| "step new_URL (Message data) s = s\<lparr>caches := snd (message_listener data (caches s))\<rparr>"
| "step new_URL (Complete net i) s =
     (if i < length (pending s)
      then (case run_task new_URL net (pending s ! i) (caches s) of
              (ts, st) \<Rightarrow> \<lparr>caches = st, pending = take i (pending s) @ drop (Suc i) (pending s) @ ts\<rparr>)
      else s)"

text \<open>
  The invariant of the stored entries: every entry of every cache has a GET request as
  its key and an \<open>ok\<close> response as its value, and every pending task carries a GET
  request (and, for a write, a response of status 200).
\<close>

definition entry_ok :: "request \<times> response \<Rightarrow> bool" where
  "entry_ok e = (method (fst e) = ''GET'' \<and> ok (snd e))"

definition storage_ok :: "CacheStorage \<Rightarrow> bool" where
  "storage_ok st = list_all (\<lambda>g. list_all entry_ok (snd g)) st"

fun task_ok :: "task \<Rightarrow> bool" where
  "task_ok (UpdateCache request cacheName) = (method request = ''GET'')"
| "task_ok (CachePut cacheName request v) = (method request = ''GET'' \<and> status v = 200)"

definition sw_ok :: "sw \<Rightarrow> bool" where
  "sw_ok s = (storage_ok (caches s) \<and> list_all task_ok (pending s))"

text \<open>The names the activate listener keeps.\<close>

definition recognized :: "string \<Rightarrow> bool" where
  "recognized n = (n = CACHE_NAME \<or> n = EXTERNAL_CACHE_NAME \<or> n = DATA_CACHE_NAME)"

text \<open>The cache name the fetch listener passes to the strategy for a parsed URL.\<close>

definition routed_cache :: "URL \<Rightarrow> string" where
  "routed_cache u =
     (if origin u = ''https://fonts.googleapis.com'' \<or> origin u = ''https://fonts.gstatic.com''
      then EXTERNAL_CACHE_NAME else CACHE_NAME)"

text \<open>
  A parser routes the configured URLs when it gives the shell resources an origin that
  is not a font origin, and the external resources a font origin.
\<close>

definition routes_configured :: "(string \<Rightarrow> URL) \<Rightarrow> bool" where
  "routes_configured new_URL =
     (list_all (\<lambda>u. routed_cache (new_URL u) = CACHE_NAME) CACHE_URLS
      \<and> list_all (\<lambda>u. routed_cache (new_URL u) = EXTERNAL_CACHE_NAME) EXTERNAL_URLS)"

text \<open>
  The routing invariant: cache names are distinct, every entry is stored in the cache
  its URL is routed to, and every pending task writes to the cache its request is
  routed to.
\<close>

definition routed_entries :: "(string \<Rightarrow> URL) \<Rightarrow> string \<Rightarrow> cache \<Rightarrow> bool" where
  "routed_entries new_URL name c = list_all (\<lambda>e. routed_cache (new_URL (url (fst e))) = name) c"

definition routed_storage :: "(string \<Rightarrow> URL) \<Rightarrow> CacheStorage \<Rightarrow> bool" where
  "routed_storage new_URL st =
     (distinct (caches_keys st) \<and> list_all (\<lambda>g. routed_entries new_URL (fst g) (snd g)) st)"

definition routed_task :: "(string \<Rightarrow> URL) \<Rightarrow> task \<Rightarrow> bool" where
  "routed_task new_URL t = (task_cache t = routed_cache (new_URL (url (task_request t))))"

definition routed_ok :: "(string \<Rightarrow> URL) \<Rightarrow> sw \<Rightarrow> bool" where
  "routed_ok new_URL s =
     (routed_storage new_URL (caches s) \<and> list_all (routed_task new_URL) (pending s))"

subsection \<open>Example inputs\<close>

text \<open>
  Concrete inputs for the instances below: a URL parser that knows the two font origins
  and the application's origin, a font request, a navigation request, a network that
  answers every request with a given status, and a network that reaches the
  application's own files only.
\<close>

definition example_URL :: "string \<Rightarrow> URL" where
  "example_URL u =
     (if take 25 u = ''https://fonts.gstatic.com''
      then \<lparr>protocol = ''https:'', origin = ''https://fonts.gstatic.com''\<rparr>
      else if take 28 u = ''https://fonts.googleapis.com''
      then \<lparr>protocol = ''https:'', origin = ''https://fonts.googleapis.com''\<rparr>
      else \<lparr>protocol = ''https:'', origin = ''https://behavana.example''\<rparr>)"

definition font_request :: request where
  "font_request = \<lparr>method = ''GET'', url = ''https://fonts.gstatic.com/s/inter.woff2'',
                    destination = ''font''\<rparr>"

definition page_request :: request where
  "page_request = \<lparr>method = ''GET'', url = ''./history'', destination = ''document''\<rparr>"

definition always :: "nat \<Rightarrow> network" where
  "always s = (\<lambda>request. Some (Response ''fresh'' s []))"

definition local_only :: network where
  "local_only =
     (\<lambda>request. if take 2 (url request) = ''./'' then Some (Response ''shell'' 200 ''OK'') else None)"

lemmas ex_defs = example_URL_def font_request_def page_request_def always_def local_only_def
  offline_def Request_def Response_def clone_def ok_def
  CACHE_NAME_def EXTERNAL_CACHE_NAME_def DATA_CACHE_NAME_def CACHE_URLS_def EXTERNAL_URLS_def
  cache_match_def cache_store_def cache_put_def cache_addAll_def caches_keys_def caches_open_def
  caches_delete_def generation_def with_cache_def on_cache_def

section \<open>Auxiliary facts\<close>

lemma caches_match_None_iff:
  "caches_match st r = None \<longleftrightarrow> (\<forall>g\<in>set st. cache_match (snd g) r = None)"
  by (induction st r rule: caches_match.induct) (auto split: option.splits)

lemma caches_match_first:
  "\<forall>g\<in>set pre. cache_match (snd g) r = None \<Longrightarrow> cache_match c r = Some v
   \<Longrightarrow> caches_match (pre @ (n, c) # post) r = Some v"
  by (induction pre) (auto split: option.splits)

lemma caches_match_append:
  "caches_match (st @ st') r =
     (case caches_match st r of Some v \<Rightarrow> Some v | None \<Rightarrow> caches_match st' r)"
  by (induction st r rule: caches_match.induct) (auto split: option.splits)

lemma caches_match_open: "caches_match (caches_open name st) r = caches_match st r"
  by (simp add: caches_open_def caches_match_append cache_match_def split: option.splits)

lemma fold_delete_unrecognized:
  "fold (\<lambda>cacheName s. if P cacheName then caches_delete cacheName s else s) ns st
   = filter (\<lambda>g. \<not> (P (fst g) \<and> fst g \<in> set ns)) st"
proof (induction ns arbitrary: st)
  case Nil
  then show ?case by simp
next
  case (Cons a ns)
  have "filter (\<lambda>g. \<not> (P (fst g) \<and> fst g \<in> set ns)) (caches_delete a st)
      = filter (\<lambda>g. \<not> (P (fst g) \<and> fst g \<in> set (a # ns))) st" if "P a"
    using that by (auto simp: caches_delete_def intro!: filter_cong)
  moreover have "filter (\<lambda>g. \<not> (P (fst g) \<and> fst g \<in> set ns)) st
      = filter (\<lambda>g. \<not> (P (fst g) \<and> fst g \<in> set (a # ns))) st" if "\<not> P a"
    using that by (auto intro!: filter_cong)
  ultimately show ?case using Cons by simp
qed

lemma activate_listener_filter:
  "activate_listener st = filter (\<lambda>g. recognized (fst g)) st"
proof -
  have "activate_listener st
      = filter (\<lambda>g. \<not> (\<not> recognized (fst g) \<and> fst g \<in> set (caches_keys st))) st"
    unfolding activate_listener_def recognized_def
    using fold_delete_unrecognized
      [of "\<lambda>n. n \<noteq> CACHE_NAME \<and> n \<noteq> EXTERNAL_CACHE_NAME \<and> n \<noteq> DATA_CACHE_NAME" "caches_keys st" st]
    by simp
  also have "\<dots> = filter (\<lambda>g. recognized (fst g)) st"
    by (rule filter_cong) (auto simp: caches_keys_def)
  finally show ?thesis .
qed

lemma clear_all: "snd (message_listener (Some ''CLEAR_CACHE'') st) = []"
proof -
  have "fold (\<lambda>cacheName s. caches_delete cacheName s) (caches_keys st) st
    = filter (\<lambda>g. \<not> (True \<and> fst g \<in> set (caches_keys st))) st"
    using fold_delete_unrecognized [of "\<lambda>_. True" "caches_keys st" st] by simp
  also have "\<dots> = []" by (auto simp: caches_keys_def filter_empty_conv)
  finally show ?thesis by (simp add: message_listener_def)
qed

lemma find_after_store:
  "find (\<lambda>(k, w). url k = url r) (filter (\<lambda>(k, w). url k \<noteq> url r) c @ [(r, v)]) = Some (r, v)"
  by (induction c) auto

lemma cache_match_store:
  "method r = ''GET'' \<Longrightarrow> cache_match (cache_store c r v) r = Some v"
  by (simp add: cache_match_def cache_store_def find_after_store)

lemma generation_open: "generation (caches_open name st) name \<noteq> None"
  by (auto simp: generation_def caches_open_def caches_keys_def map_of_eq_None_iff)

lemma generation_open_other:
  "name' \<noteq> name \<Longrightarrow> generation (caches_open name st) name' = generation st name'"
  by (simp add: generation_def caches_open_def map_add_def split: option.splits)

lemma generation_with_cache:
  "generation (with_cache name f st) name' =
     (if name' = name then map_option f (generation st name) else generation st name')"
  by (induction st) (auto simp: generation_def with_cache_def)

lemma generation_on_cache_other:
  "name' \<noteq> name \<Longrightarrow> generation (snd (on_cache name f st)) name' = generation st name'"
  by (simp add: on_cache_def generation_with_cache split: sum.splits)

lemma run_task_other:
  "name \<noteq> task_cache t \<Longrightarrow>
   generation (snd (run_task new_URL net t st)) name = generation st name"
  by (cases t)
     (auto simp: updateCache_def generation_open_other generation_on_cache_other
           split: option.splits)

lemma strategy_tasks:
  "t \<in> set (fst (snd (cacheFirstStrategy net request cacheName st))) \<Longrightarrow> task_cache t = cacheName"
  by (auto simp: cacheFirstStrategy_def split: option.splits if_splits)

lemma strategy_other:
  "name \<noteq> cacheName \<Longrightarrow>
   generation (snd (snd (cacheFirstStrategy net request cacheName st))) name = generation st name"
  by (auto simp: cacheFirstStrategy_def generation_open_other split: option.splits)

lemma strategy_hit:
  "caches_match st request = Some v \<Longrightarrow>
   fst (cacheFirstStrategy net request cacheName st) = Some v"
  by (simp add: cacheFirstStrategy_def)

lemma fetch_listener_routed:
  "method request = ''GET'' \<Longrightarrow> protocol (new_URL (url request)) \<noteq> ''chrome-extension:'' \<Longrightarrow>
   fetch_listener new_URL net request st
   = respondWith (cacheFirstStrategy net request (routed_cache (new_URL (url request))) st)"
  by (simp add: fetch_listener_def routed_cache_def Let_def)

lemma install_primary:
  "waitUntil (install_listener net st)
     = (case fetch_all net CACHE_URLS of None \<Rightarrow> Inl TypeError | Some es \<Rightarrow> Inr ())
   \<and> skipWaiting (install_listener net st) = (fetch_all net CACHE_URLS \<noteq> None)"
  by (simp add: install_listener_def on_cache_def cache_addAll_def Let_def
      split: option.splits sum.splits prod.splits)

lemma cache_store_ok:
  "list_all entry_ok c \<Longrightarrow> entry_ok (r, v) \<Longrightarrow> list_all entry_ok (cache_store c r v)"
  by (simp add: cache_store_def list_all_iff)

lemma fetch_all_ok: "fetch_all net urls = Some es \<Longrightarrow> list_all entry_ok es"
  by (induction urls arbitrary: es)
     (auto simp: entry_ok_def Request_def split: option.splits if_splits)

lemma fold_store_ok:
  "list_all entry_ok es \<Longrightarrow> list_all entry_ok c \<Longrightarrow>
   list_all entry_ok (fold (\<lambda>(r, v) c'. cache_store c' r v) es c)"
  by (induction es arbitrary: c) (auto simp: cache_store_ok)

lemma cache_addAll_ok:
  "cache_addAll net c urls = Inr c' \<Longrightarrow> list_all entry_ok c \<Longrightarrow> list_all entry_ok c'"
  by (auto simp: cache_addAll_def fetch_all_ok fold_store_ok split: option.splits)

lemma cache_put_ok:
  "cache_put new_URL c r v = Inr c' \<Longrightarrow> ok v \<Longrightarrow> list_all entry_ok c \<Longrightarrow> list_all entry_ok c'"
  by (auto simp: cache_put_def cache_store_ok entry_ok_def split: if_splits)

lemma storage_ok_open: "storage_ok st \<Longrightarrow> storage_ok (caches_open name st)"
  by (simp add: storage_ok_def caches_open_def)

lemma storage_ok_filter: "storage_ok st \<Longrightarrow> storage_ok (filter P st)"
  by (auto simp: storage_ok_def list_all_iff)

lemma storage_ok_generation:
  "storage_ok st \<Longrightarrow> generation st name = Some c \<Longrightarrow> list_all entry_ok c"
  by (auto simp: storage_ok_def generation_def list_all_iff dest: map_of_SomeD)

lemma storage_ok_with_cache:
  "storage_ok st \<Longrightarrow> list_all entry_ok c' \<Longrightarrow> storage_ok (with_cache name (\<lambda>_. c') st)"
  by (fastforce simp: storage_ok_def with_cache_def list_all_iff split: if_splits)

lemma storage_ok_on_cache:
  assumes "storage_ok st"
    and "\<And>c c'. list_all entry_ok c \<Longrightarrow> f c = Inr c' \<Longrightarrow> list_all entry_ok c'"
  shows "storage_ok (snd (on_cache name f st))"
proof (cases "f (case generation st name of Some c \<Rightarrow> c | None \<Rightarrow> [])")
  case (Inl e)
  with assms(1) show ?thesis by (simp add: on_cache_def)
next
  case (Inr c')
  have "list_all entry_ok (case generation st name of Some c \<Rightarrow> c | None \<Rightarrow> [])"
    using assms(1) storage_ok_generation [of st name] by (simp split: option.splits)
  with Inr have "list_all entry_ok c'" by (rule assms(2) [rotated])
  with assms(1) Inr show ?thesis by (simp add: on_cache_def storage_ok_with_cache)
qed

lemma install_listener_ok:
  assumes "storage_ok st"
  shows "storage_ok (storage (install_listener net st))"
proof -
  let ?st2 = "caches_open EXTERNAL_CACHE_NAME (caches_open CACHE_NAME st)"
  let ?st3 = "snd (on_cache CACHE_NAME (\<lambda>cache. cache_addAll net cache CACHE_URLS) ?st2)"
  let ?st4 = "snd (on_cache EXTERNAL_CACHE_NAME (\<lambda>cache. cache_addAll net cache EXTERNAL_URLS) ?st3)"
  have "storage_ok ?st2" using assms by (simp add: storage_ok_open)
  then have "storage_ok ?st3" by (rule storage_ok_on_cache) (rule cache_addAll_ok)
  then have "storage_ok ?st4" by (rule storage_ok_on_cache) (rule cache_addAll_ok)
  moreover have "storage (install_listener net st) = ?st4"
    by (simp add: install_listener_def Let_def split: prod.splits sum.splits)
  ultimately show ?thesis by simp
qed

lemma activate_listener_ok: "storage_ok st \<Longrightarrow> storage_ok (activate_listener st)"
  by (simp add: activate_listener_filter storage_ok_filter)

lemma message_listener_ok: "storage_ok st \<Longrightarrow> storage_ok (snd (message_listener data st))"
  by (simp add: message_listener_def fold_delete_unrecognized [of "\<lambda>_. True", simplified]
      storage_ok_filter)

lemma cacheFirstStrategy_ok:
  assumes "storage_ok st" and "method request = ''GET''"
  shows "storage_ok (snd (snd (cacheFirstStrategy net request cacheName st)))
         \<and> list_all task_ok (fst (snd (cacheFirstStrategy net request cacheName st)))"
  using assms
  by (auto simp: cacheFirstStrategy_def storage_ok_open clone_def split: option.splits)

lemma fetch_listener_ok:
  assumes "storage_ok st"
  shows "storage_ok (snd (snd (fetch_listener new_URL net request st)))
         \<and> list_all task_ok (fst (snd (fetch_listener new_URL net request st)))"
proof (cases "method request = ''GET'' \<and> protocol (new_URL (url request)) \<noteq> ''chrome-extension:''")
  case True
  then have "fetch_listener new_URL net request st
      = respondWith (cacheFirstStrategy net request (routed_cache (new_URL (url request))) st)"
    by (simp add: fetch_listener_routed)
  moreover have "snd (respondWith p) = snd p" for p
    by (simp add: respondWith_def split: prod.splits)
  ultimately show ?thesis
    using cacheFirstStrategy_ok [OF assms, of request net] True by simp
next
  case False
  with assms show ?thesis by (auto simp: fetch_listener_def Let_def)
qed

lemma run_task_ok:
  assumes "storage_ok st" and "task_ok t"
  shows "storage_ok (snd (run_task new_URL net t st))
         \<and> list_all task_ok (fst (run_task new_URL net t st))"
proof (cases t)
  case (UpdateCache request cacheName)
  with assms show ?thesis
    by (auto simp: updateCache_def storage_ok_open clone_def split: option.splits)
next
  case (CachePut cacheName request v)
  with assms(2) have "ok v" by (simp add: ok_def)
  then have "storage_ok (snd (on_cache cacheName (\<lambda>cache. cache_put new_URL cache request v) st))"
    using assms(1) by (intro storage_ok_on_cache) (auto intro: cache_put_ok)
  with CachePut show ?thesis by simp
qed

lemma step_ok:
  "sw_ok s \<Longrightarrow> sw_ok (step new_URL e s)"
proof (cases e)
  case (Install net)
  then show "sw_ok s \<Longrightarrow> ?thesis" by (simp add: sw_ok_def install_listener_ok)
next
  case Activate
  then show "sw_ok s \<Longrightarrow> ?thesis" by (simp add: sw_ok_def activate_listener_ok)
next
  case (Fetch net request)
  then show "sw_ok s \<Longrightarrow> ?thesis"
    using fetch_listener_ok [of "caches s" new_URL net request]
    by (auto simp: sw_ok_def split: prod.splits)
next
  case (Message data)
  then show "sw_ok s \<Longrightarrow> ?thesis" by (simp add: sw_ok_def message_listener_ok)
next
  case (Complete net i)
  show "sw_ok s \<Longrightarrow> ?thesis"
  proof (cases "i < length (pending s)")
    case True
    assume ok: "sw_ok s"
    then have "task_ok (pending s ! i)"
      using True by (simp add: sw_ok_def list_all_length)
    with ok have "storage_ok (snd (run_task new_URL net (pending s ! i) (caches s)))
        \<and> list_all task_ok (fst (run_task new_URL net (pending s ! i) (caches s)))"
      by (simp add: sw_ok_def run_task_ok)
    moreover have "list_all task_ok (take i (pending s))" "list_all task_ok (drop (Suc i) (pending s))"
      using ok by (auto simp: sw_ok_def list_all_iff dest: in_set_takeD in_set_dropD)
    ultimately show ?thesis
      using Complete True by (auto simp: sw_ok_def split: prod.splits)
  next
    case False
    assume "sw_ok s"
    with Complete False show ?thesis by simp
  qed
qed

lemma caches_keys_with_cache: "caches_keys (with_cache name f st) = caches_keys st"
  by (induction st) (auto simp: caches_keys_def with_cache_def)

lemma routed_storage_open: "routed_storage new_URL st \<Longrightarrow> routed_storage new_URL (caches_open name st)"
  by (auto simp: routed_storage_def caches_open_def caches_keys_def routed_entries_def)

lemma routed_storage_filter: "routed_storage new_URL st \<Longrightarrow> routed_storage new_URL (filter P st)"
  by (auto simp: routed_storage_def caches_keys_def list_all_iff distinct_map_filter)

lemma routed_storage_generation:
  "routed_storage new_URL st \<Longrightarrow> generation st name = Some c \<Longrightarrow> routed_entries new_URL name c"
  by (fastforce simp: routed_storage_def generation_def list_all_iff dest!: map_of_SomeD)

lemma routed_storage_with_cache:
  "routed_storage new_URL st \<Longrightarrow> routed_entries new_URL name c' \<Longrightarrow>
   routed_storage new_URL (with_cache name (\<lambda>_. c') st)"
  unfolding routed_storage_def caches_keys_with_cache
  by (fastforce simp: with_cache_def list_all_iff split: if_splits)

lemma routed_storage_on_cache:
  assumes "routed_storage new_URL st"
    and "\<And>c c'. routed_entries new_URL name c \<Longrightarrow> f c = Inr c' \<Longrightarrow> routed_entries new_URL name c'"
  shows "routed_storage new_URL (snd (on_cache name f st))"
proof (cases "f (case generation st name of Some c \<Rightarrow> c | None \<Rightarrow> [])")
  case (Inl e)
  with assms(1) show ?thesis by (simp add: on_cache_def)
next
  case (Inr c')
  have "routed_entries new_URL name (case generation st name of Some c \<Rightarrow> c | None \<Rightarrow> [])"
    using assms(1) routed_storage_generation [of new_URL st name]
    by (simp add: routed_entries_def split: option.splits)
  with Inr have "routed_entries new_URL name c'" by (rule assms(2) [rotated])
  with assms(1) Inr show ?thesis by (simp add: on_cache_def routed_storage_with_cache)
qed

lemma routed_entries_store:
  "routed_entries new_URL name c \<Longrightarrow> routed_cache (new_URL (url r)) = name \<Longrightarrow>
   routed_entries new_URL name (cache_store c r v)"
  by (simp add: routed_entries_def cache_store_def list_all_iff)

lemma fetch_all_routed:
  "fetch_all net urls = Some es \<Longrightarrow> list_all (\<lambda>u. routed_cache (new_URL u) = name) urls \<Longrightarrow>
   routed_entries new_URL name es"
  by (induction urls arbitrary: es)
     (auto simp: routed_entries_def Request_def split: option.splits if_splits)

lemma fold_store_routed:
  "routed_entries new_URL name es \<Longrightarrow> routed_entries new_URL name c \<Longrightarrow>
   routed_entries new_URL name (fold (\<lambda>(r, v) c'. cache_store c' r v) es c)"
proof (induction es arbitrary: c)
  case Nil
  then show ?case by simp
next
  case (Cons e es)
  obtain r v where e: "e = (r, v)" by (cases e)
  from Cons.prems(1) have "routed_cache (new_URL (url r)) = name" "routed_entries new_URL name es"
    by (simp_all add: routed_entries_def e)
  with Cons.prems(2) Cons.IH [of "cache_store c r v"] show ?case
    by (simp add: e routed_entries_store)
qed

lemma cache_addAll_routed:
  "cache_addAll net c urls = Inr c' \<Longrightarrow> list_all (\<lambda>u. routed_cache (new_URL u) = name) urls \<Longrightarrow>
   routed_entries new_URL name c \<Longrightarrow> routed_entries new_URL name c'"
  by (auto simp: cache_addAll_def fetch_all_routed fold_store_routed split: option.splits)

lemma cache_put_routed:
  "cache_put new_URL c r v = Inr c' \<Longrightarrow> routed_cache (new_URL (url r)) = name \<Longrightarrow>
   routed_entries new_URL name c \<Longrightarrow> routed_entries new_URL name c'"
  by (auto simp: cache_put_def routed_entries_store split: if_splits)

lemma install_listener_routed:
  assumes "routes_configured new_URL" and "routed_storage new_URL st"
  shows "routed_storage new_URL (storage (install_listener net st))"
proof -
  let ?st2 = "caches_open EXTERNAL_CACHE_NAME (caches_open CACHE_NAME st)"
  let ?st3 = "snd (on_cache CACHE_NAME (\<lambda>cache. cache_addAll net cache CACHE_URLS) ?st2)"
  let ?st4 = "snd (on_cache EXTERNAL_CACHE_NAME (\<lambda>cache. cache_addAll net cache EXTERNAL_URLS) ?st3)"
  have st2: "routed_storage new_URL ?st2" using assms(2) by (simp add: routed_storage_open)
  have st3: "routed_storage new_URL ?st3"
    by (rule routed_storage_on_cache [OF st2])
       (use assms(1) in \<open>auto simp: routes_configured_def elim: cache_addAll_routed\<close>)
  have "routed_storage new_URL ?st4"
    by (rule routed_storage_on_cache [OF st3])
       (use assms(1) in \<open>auto simp: routes_configured_def elim: cache_addAll_routed\<close>)
  moreover have "storage (install_listener net st) = ?st4"
    by (simp add: install_listener_def Let_def split: prod.splits sum.splits)
  ultimately show ?thesis by simp
qed

lemma activate_listener_routed:
  "routed_storage new_URL st \<Longrightarrow> routed_storage new_URL (activate_listener st)"
  by (simp add: activate_listener_filter routed_storage_filter)

lemma message_listener_routed:
  "routed_storage new_URL st \<Longrightarrow> routed_storage new_URL (snd (message_listener data st))"
  by (simp add: message_listener_def fold_delete_unrecognized [of "\<lambda>_. True", simplified]
      routed_storage_filter)

lemma cacheFirstStrategy_routed:
  assumes "routed_storage new_URL st" and "cacheName = routed_cache (new_URL (url request))"
  shows "routed_storage new_URL (snd (snd (cacheFirstStrategy net request cacheName st)))
         \<and> list_all (routed_task new_URL) (fst (snd (cacheFirstStrategy net request cacheName st)))"
  using assms
  by (auto simp: cacheFirstStrategy_def routed_storage_open routed_task_def split: option.splits)

lemma fetch_listener_routed_ok:
  assumes "routed_storage new_URL st"
  shows "routed_storage new_URL (snd (snd (fetch_listener new_URL net request st)))
         \<and> list_all (routed_task new_URL) (fst (snd (fetch_listener new_URL net request st)))"
proof (cases "method request = ''GET'' \<and> protocol (new_URL (url request)) \<noteq> ''chrome-extension:''")
  case True
  then have "fetch_listener new_URL net request st
      = respondWith (cacheFirstStrategy net request (routed_cache (new_URL (url request))) st)"
    by (simp add: fetch_listener_routed)
  moreover have "snd (respondWith p) = snd p" for p
    by (simp add: respondWith_def split: prod.splits)
  ultimately show ?thesis
    using cacheFirstStrategy_routed
      [OF assms refl, where request = request and net = net] by simp
next
  case False
  with assms show ?thesis by (auto simp: fetch_listener_def Let_def)
qed

lemma run_task_routed:
  assumes "routed_storage new_URL st" and "routed_task new_URL t"
  shows "routed_storage new_URL (snd (run_task new_URL net t st))
         \<and> list_all (routed_task new_URL) (fst (run_task new_URL net t st))"
proof (cases t)
  case (UpdateCache request cacheName)
  with assms show ?thesis
    by (auto simp: updateCache_def routed_storage_open routed_task_def split: option.splits)
next
  case (CachePut cacheName request v)
  with assms(2) have "routed_cache (new_URL (url request)) = cacheName"
    by (simp add: routed_task_def)
  then have "routed_storage new_URL
      (snd (on_cache cacheName (\<lambda>cache. cache_put new_URL cache request v) st))"
    by (intro routed_storage_on_cache [OF assms(1)]) (auto elim: cache_put_routed)
  with CachePut show ?thesis by simp
qed

lemma step_routed:
  assumes "routes_configured new_URL" and "routed_ok new_URL s"
  shows "routed_ok new_URL (step new_URL e s)"
proof (cases e)
  case (Install net)
  with assms show ?thesis by (simp add: routed_ok_def install_listener_routed)
next
  case Activate
  with assms show ?thesis by (simp add: routed_ok_def activate_listener_routed)
next
  case (Fetch net request)
  with assms show ?thesis
    using fetch_listener_routed_ok [of new_URL "caches s" net request]
    by (auto simp: routed_ok_def split: prod.splits)
next
  case (Message data)
  with assms show ?thesis by (simp add: routed_ok_def message_listener_routed)
next
  case (Complete net i)
  show ?thesis
  proof (cases "i < length (pending s)")
    case True
    with assms(2) have "routed_task new_URL (pending s ! i)"
      by (simp add: routed_ok_def list_all_length)
    with assms(2) have "routed_storage new_URL (snd (run_task new_URL net (pending s ! i) (caches s)))
        \<and> list_all (routed_task new_URL) (fst (run_task new_URL net (pending s ! i) (caches s)))"
      by (simp add: routed_ok_def run_task_routed)
    moreover have "list_all (routed_task new_URL) (take i (pending s))"
      "list_all (routed_task new_URL) (drop (Suc i) (pending s))"
      using assms(2) by (auto simp: routed_ok_def list_all_iff dest: in_set_takeD in_set_dropD)
    ultimately show ?thesis
      using Complete True by (auto simp: routed_ok_def split: prod.splits)
  next
    case False
    with assms(2) Complete show ?thesis by simp
  qed
qed

lemma reachable_routed:
  assumes "routes_configured new_URL"
  shows "routed_ok new_URL (fold (step new_URL) es \<lparr>caches = [], pending = []\<rparr>)"
proof -
  have "routed_ok new_URL s \<Longrightarrow> routed_ok new_URL (fold (step new_URL) es s)" for s
    by (induction es arbitrary: s) (auto intro: step_routed [OF assms])
  moreover have "routed_ok new_URL \<lparr>caches = [], pending = []\<rparr>"
    by (simp add: routed_ok_def routed_storage_def caches_keys_def)
  ultimately show ?thesis by blast
qed

lemma cache_match_entry:
  "cache_match c r = Some v \<Longrightarrow> \<exists>k. (k, v) \<in> set c \<and> url k = url r"
  by (auto simp: cache_match_def find_Some_iff split: if_splits) (metis nth_mem)

lemma routed_match_name:
  assumes "routed_storage new_URL st" and "(n, c) \<in> set st" and "cache_match c r = Some v"
  shows "n = routed_cache (new_URL (url r))"
proof -
  from assms(3) obtain k where "(k, v) \<in> set c" "url k = url r"
    using cache_match_entry by blast
  with assms(1,2) show ?thesis
    by (fastforce simp: routed_storage_def routed_entries_def list_all_iff)
qed

lemma generation_distinct:
  "distinct (caches_keys st) \<Longrightarrow> (n, c) \<in> set st \<Longrightarrow> generation st n = Some c"
  by (simp add: generation_def caches_keys_def)

lemma caches_match_Some_ex:
  "caches_match st r = Some v \<Longrightarrow> \<exists>n c. (n, c) \<in> set st \<and> cache_match c r = Some v"
  by (induction st r rule: caches_match.induct) (auto split: option.splits)

lemma routed_lookup:
  assumes "routed_storage new_URL st"
  shows "caches_match st r =
     (case generation st (routed_cache (new_URL (url r))) of
        None \<Rightarrow> None | Some c \<Rightarrow> cache_match c r)"
proof (cases "caches_match st r")
  case None
  then have all: "\<forall>g\<in>set st. cache_match (snd g) r = None"
    by (simp add: caches_match_None_iff)
  show ?thesis
  proof (cases "generation st (routed_cache (new_URL (url r)))")
    case None
    with \<open>caches_match st r = None\<close> show ?thesis by simp
  next
    case (Some c)
    then have "(routed_cache (new_URL (url r)), c) \<in> set st"
      by (auto simp: generation_def dest: map_of_SomeD)
    with all have "cache_match c r = None" by fastforce
    with Some \<open>caches_match st r = None\<close> show ?thesis by simp
  qed
next
  case (Some v)
  then obtain n c where nc: "(n, c) \<in> set st" "cache_match c r = Some v"
    using caches_match_Some_ex by blast
  with assms have "n = routed_cache (new_URL (url r))" by (rule routed_match_name)
  moreover from assms nc(1) have "generation st n = Some c"
    by (simp add: routed_storage_def generation_distinct)
  ultimately show ?thesis using Some nc(2) by simp
qed

lemma routed_stored_is_served:
  assumes "routed_storage new_URL st" and "(n, c) \<in> set st" and "cache_match c r = Some v"
  shows "caches_match st r = Some v"
proof -
  from assms have "n = routed_cache (new_URL (url r))" by (rule routed_match_name)
  moreover from assms(1,2) have "generation st n = Some c"
    by (simp add: routed_storage_def generation_distinct)
  ultimately show ?thesis using assms(3) routed_lookup [OF assms(1), of r] by simp
qed

lemma run_task_spawned:
  "t' \<in> set (fst (run_task new_URL net t st)) \<Longrightarrow> task_cache t' = task_cache t"
  by (cases t) (auto simp: updateCache_def split: option.splits if_splits)

lemma ex_routes: "routes_configured example_URL"
  by (simp add: routes_configured_def routed_cache_def example_URL_def CACHE_URLS_def
      EXTERNAL_URLS_def CACHE_NAME_def EXTERNAL_CACHE_NAME_def)

lemma ex_installed:
  "caches (fold (step example_URL) [Install local_only] \<lparr>caches = [], pending = []\<rparr>)
   = [(CACHE_NAME,
       [(Request ''./'', Response ''shell'' 200 ''OK''),
        (Request ''./index.html'', Response ''shell'' 200 ''OK''),
        (Request ''./styles.css'', Response ''shell'' 200 ''OK''),
        (Request ''./manifest.json'', Response ''shell'' 200 ''OK'')]),
      (EXTERNAL_CACHE_NAME, [])]"
  by (simp add: install_listener_def ex_defs)

section \<open>Properties\<close>

subsection \<open>Cache hits\<close>

text \<open>
  Claim C1. The worker writes an entry only into the cache its URL is routed to, so in
  every state it reaches from the empty storage (with a parser that routes the
  configured URLs) a request is stored in at most one cache. There, a GET request
  stored in any cache is answered with that stored response when the fetch rejects: the
  strategy returns it, changes no cache, and the background refresh it starts ends
  without a write. On any storage at all, a request stored in some cache is answered
  with a response stored for it, and the rejected fetch plays no part.
\<close>

theorem stored_request_served_offline:
  assumes "routes_configured new_URL"
    and "(n, c) \<in> set (caches (fold (step new_URL) es \<lparr>caches = [], pending = []\<rparr>))"
    and "cache_match c request = Some v"
    and "net request = None"
  shows "cacheFirstStrategy net request cacheName
           (caches (fold (step new_URL) es \<lparr>caches = [], pending = []\<rparr>))
         = (Some v, [UpdateCache request cacheName],
            caches (fold (step new_URL) es \<lparr>caches = [], pending = []\<rparr>))
       \<and> run_task new_URL net (UpdateCache request cacheName)
           (caches (fold (step new_URL) es \<lparr>caches = [], pending = []\<rparr>))
         = ([], caches (fold (step new_URL) es \<lparr>caches = [], pending = []\<rparr>))
       \<and> ((n', c') \<in> set st' \<and> cache_match c' request = Some v' \<longrightarrow>
            (\<exists>m d w. (m, d) \<in> set st' \<and> cache_match d request = Some w
               \<and> cacheFirstStrategy net request cacheName st'
                   = (Some w, [UpdateCache request cacheName], st')))"
proof -
  let ?st = "caches (fold (step new_URL) es \<lparr>caches = [], pending = []\<rparr>)"
  have "routed_storage new_URL ?st"
    using reachable_routed [OF assms(1), of es] by (simp add: routed_ok_def)
  then have "caches_match ?st request = Some v"
    using assms(2,3) by (rule routed_stored_is_served)
  with assms(4) have reach: "cacheFirstStrategy net request cacheName ?st
         = (Some v, [UpdateCache request cacheName], ?st)
       \<and> run_task new_URL net (UpdateCache request cacheName) ?st = ([], ?st)"
    by (simp add: cacheFirstStrategy_def updateCache_def)
  have any: "(n', c') \<in> set st' \<and> cache_match c' request = Some v' \<longrightarrow>
            (\<exists>m d w. (m, d) \<in> set st' \<and> cache_match d request = Some w
               \<and> cacheFirstStrategy net request cacheName st'
                   = (Some w, [UpdateCache request cacheName], st'))"
  proof
    assume stored: "(n', c') \<in> set st' \<and> cache_match c' request = Some v'"
    have "caches_match st' request \<noteq> None"
    proof
      assume "caches_match st' request = None"
      then have "\<forall>g\<in>set st'. cache_match (snd g) request = None"
        by (simp add: caches_match_None_iff)
      with stored have "cache_match (snd (n', c')) request = None" by blast
      with stored show False by simp
    qed
    then obtain w where w: "caches_match st' request = Some w" by auto
    then obtain m d where "(m, d) \<in> set st'" "cache_match d request = Some w"
      using caches_match_Some_ex by blast
    moreover from w have "cacheFirstStrategy net request cacheName st'
        = (Some w, [UpdateCache request cacheName], st')"
      by (simp add: cacheFirstStrategy_def)
    ultimately show "\<exists>m d w. (m, d) \<in> set st' \<and> cache_match d request = Some w
               \<and> cacheFirstStrategy net request cacheName st'
                   = (Some w, [UpdateCache request cacheName], st')"
      by blast
  qed
  from reach any show ?thesis by blast
qed

theorem stored_request_served_offline_witness:
  "routes_configured example_URL
   \<and> caches (fold (step example_URL) [Install local_only] \<lparr>caches = [], pending = []\<rparr>)
     = [(CACHE_NAME,
         [(Request ''./'', Response ''shell'' 200 ''OK''),
          (Request ''./index.html'', Response ''shell'' 200 ''OK''),
          (Request ''./styles.css'', Response ''shell'' 200 ''OK''),
          (Request ''./manifest.json'', Response ''shell'' 200 ''OK'')]),
        (EXTERNAL_CACHE_NAME, [])]
   \<and> cacheFirstStrategy offline (Request ''./styles.css'') CACHE_NAME
        (caches (fold (step example_URL) [Install local_only] \<lparr>caches = [], pending = []\<rparr>))
     = (Some (Response ''shell'' 200 ''OK''), [UpdateCache (Request ''./styles.css'') CACHE_NAME],
        caches (fold (step example_URL) [Install local_only] \<lparr>caches = [], pending = []\<rparr>))"
proof -
  let ?c = "[(Request ''./'', Response ''shell'' 200 ''OK''),
          (Request ''./index.html'', Response ''shell'' 200 ''OK''),
          (Request ''./styles.css'', Response ''shell'' 200 ''OK''),
          (Request ''./manifest.json'', Response ''shell'' 200 ''OK'')]"
  have stored: "(CACHE_NAME, ?c)
      \<in> set (caches (fold (step example_URL) [Install local_only] \<lparr>caches = [], pending = []\<rparr>))"
    by (simp only: ex_installed) simp
  have hit: "cache_match ?c (Request ''./styles.css'') = Some (Response ''shell'' 200 ''OK'')"
    by (simp add: cache_match_def Request_def)
  have down: "offline (Request ''./styles.css'') = None"
    by (simp add: offline_def)
  have served: "cacheFirstStrategy offline (Request ''./styles.css'') CACHE_NAME
        (caches (fold (step example_URL) [Install local_only] \<lparr>caches = [], pending = []\<rparr>))
     = (Some (Response ''shell'' 200 ''OK''), [UpdateCache (Request ''./styles.css'') CACHE_NAME],
        caches (fold (step example_URL) [Install local_only] \<lparr>caches = [], pending = []\<rparr>))"
    using stored_request_served_offline
      [where new_URL = example_URL and es = "[Install local_only]" and n = CACHE_NAME
         and c = ?c and request = "Request ''./styles.css''"
         and v = "Response ''shell'' 200 ''OK''" and net = offline and cacheName = CACHE_NAME]
      ex_routes stored hit down
    by blast
  show ?thesis
    by (intro conjI ex_routes ex_installed served)
qed

subsection \<open>Routing\<close>

text \<open>
  Claim C2. For an intercepted request (a GET whose scheme is not the extension scheme)
  the listener runs the strategy with the external cache name when the origin is one of
  the two font origins, and with the primary cache name otherwise. In every state the
  worker reaches from the empty storage, the lookup \<^verbatim>\<open>caches.match(request)\<close> gives what
  the lookup in that cache alone gives, and no cache of another name holds a match.
  Writes go to that cache only: the listener changes no cache of another name, every
  task it leaves pending writes to that cache, and running a task that writes to that
  cache changes no other cache and starts only tasks that write to that cache, so the
  write a background refresh starts is covered as well.
\<close>

theorem requests_resolved_in_routed_cache:
  assumes "routes_configured new_URL"
    and "method request = ''GET''"
    and "protocol (new_URL (url request)) \<noteq> ''chrome-extension:''"
  shows "fetch_listener new_URL net request
           (caches (fold (step new_URL) es \<lparr>caches = [], pending = []\<rparr>))
         = respondWith (cacheFirstStrategy net request (routed_cache (new_URL (url request)))
             (caches (fold (step new_URL) es \<lparr>caches = [], pending = []\<rparr>)))
       \<and> caches_match (caches (fold (step new_URL) es \<lparr>caches = [], pending = []\<rparr>)) request
         = (case generation (caches (fold (step new_URL) es \<lparr>caches = [], pending = []\<rparr>))
                  (routed_cache (new_URL (url request))) of
              None \<Rightarrow> None
            | Some c \<Rightarrow> cache_match c request)
       \<and> (\<forall>g\<in>set (caches (fold (step new_URL) es \<lparr>caches = [], pending = []\<rparr>)).
             fst g \<noteq> routed_cache (new_URL (url request)) \<longrightarrow> cache_match (snd g) request = None)
       \<and> (\<forall>name. name \<noteq> routed_cache (new_URL (url request)) \<longrightarrow>
             generation (snd (snd (fetch_listener new_URL net request
               (caches (fold (step new_URL) es \<lparr>caches = [], pending = []\<rparr>))))) name
             = generation (caches (fold (step new_URL) es \<lparr>caches = [], pending = []\<rparr>)) name)
       \<and> (\<forall>t\<in>set (fst (snd (fetch_listener new_URL net request
               (caches (fold (step new_URL) es \<lparr>caches = [], pending = []\<rparr>))))).
             task_cache t = routed_cache (new_URL (url request)))
       \<and> (\<forall>t net' st'. task_cache t = routed_cache (new_URL (url request)) \<longrightarrow>
             (\<forall>name. name \<noteq> routed_cache (new_URL (url request)) \<longrightarrow>
                generation (snd (run_task new_URL net' t st')) name = generation st' name)
             \<and> (\<forall>t'\<in>set (fst (run_task new_URL net' t st')).
                  task_cache t' = routed_cache (new_URL (url request))))"
proof -
  let ?st = "caches (fold (step new_URL) es \<lparr>caches = [], pending = []\<rparr>)"
  let ?chosen = "routed_cache (new_URL (url request))"
  let ?p = "cacheFirstStrategy net request ?chosen ?st"
  have inv: "routed_storage new_URL ?st"
    using reachable_routed [OF assms(1), of es] by (simp add: routed_ok_def)
  have routed: "fetch_listener new_URL net request ?st = respondWith ?p"
    using assms(2,3) by (rule fetch_listener_routed)
  have parts: "fst (snd (respondWith ?p)) = fst (snd ?p)" "snd (snd (respondWith ?p)) = snd (snd ?p)"
    by (simp_all add: respondWith_def split: prod.splits)
  have lookup: "caches_match ?st request
         = (case generation ?st ?chosen of None \<Rightarrow> None | Some c \<Rightarrow> cache_match c request)"
    using inv by (rule routed_lookup)
  have nowhere_else: "\<forall>g\<in>set ?st. fst g \<noteq> ?chosen \<longrightarrow> cache_match (snd g) request = None"
  proof (intro ballI impI)
    fix g assume g: "g \<in> set ?st" "fst g \<noteq> ?chosen"
    show "cache_match (snd g) request = None"
    proof (cases "cache_match (snd g) request")
      case None
      then show ?thesis .
    next
      case (Some v)
      with inv g(1) have "fst g = ?chosen"
        using routed_match_name [of new_URL ?st "fst g" "snd g" request v] by simp
      with g(2) show ?thesis by simp
    qed
  qed
  have other: "\<forall>name. name \<noteq> ?chosen \<longrightarrow>
      generation (snd (snd (fetch_listener new_URL net request ?st))) name = generation ?st name"
    by (simp add: routed parts strategy_other)
  have tasks: "\<forall>t\<in>set (fst (snd (fetch_listener new_URL net request ?st))). task_cache t = ?chosen"
    by (simp add: routed parts strategy_tasks)
  have closure: "\<forall>t net' st'. task_cache t = ?chosen \<longrightarrow>
             (\<forall>name. name \<noteq> ?chosen \<longrightarrow>
                generation (snd (run_task new_URL net' t st')) name = generation st' name)
             \<and> (\<forall>t'\<in>set (fst (run_task new_URL net' t st')). task_cache t' = ?chosen)"
    by (auto simp: run_task_other dest: run_task_spawned)
  from routed lookup nowhere_else other tasks closure show ?thesis by blast
qed

theorem requests_resolved_in_routed_cache_witness:
  "routes_configured example_URL
   \<and> caches (fold (step example_URL) [Fetch (always 200) font_request, Complete offline 0]
        \<lparr>caches = [], pending = []\<rparr>)
     = [(EXTERNAL_CACHE_NAME, [(font_request, Response ''fresh'' 200 [])])]
   \<and> fetch_listener example_URL offline font_request
        [(EXTERNAL_CACHE_NAME, [(font_request, Response ''fresh'' 200 [])])]
     = (RespondWith (Some (Response ''fresh'' 200 [])),
        [UpdateCache font_request EXTERNAL_CACHE_NAME],
        [(EXTERNAL_CACHE_NAME, [(font_request, Response ''fresh'' 200 [])])])
   \<and> generation [(EXTERNAL_CACHE_NAME, [(font_request, Response ''fresh'' 200 [])])] CACHE_NAME = None"
  using requests_resolved_in_routed_cache
    [where new_URL = example_URL and request = font_request and net = offline
       and es = "[Fetch (always 200) font_request, Complete offline 0]"]
  by (simp add: ex_defs routes_configured_def routed_cache_def fetch_listener_def respondWith_def
      cacheFirstStrategy_def)

subsection \<open>Cache misses\<close>

text \<open>
  Claim C3, as the code has it. For a GET request found in no cache whose fetch resolves
  with status 200, the strategy opens the chosen cache and starts the write of a clone
  without awaiting it: it returns the network's response with the write pending, and the
  request is still found in no cache at that moment. When the pending write then runs on
  that storage, the entry is in the chosen cache if the platform accepts the write (an
  http or https URL, no \<^verbatim>\<open>Vary\<close> field value \<^verbatim>\<open>*\<close>); if the platform rejects it, nothing is
  stored. A response of any other status is returned and nothing is written.
\<close>

theorem miss_write_is_pending:
  assumes "method request = ''GET''"
    and "\<forall>g\<in>set st. cache_match (snd g) request = None"
    and "net request = Some v"
  shows "(status v = 200 \<longrightarrow>
            cacheFirstStrategy net request cacheName st
              = (Some v, [CachePut cacheName request (clone v)], caches_open cacheName st)
            \<and> caches_match (caches_open cacheName st) request = None
            \<and> ((protocol (new_URL (url request)) = ''http:''
                   \<or> protocol (new_URL (url request)) = ''https:'')
                 \<and> ''*'' \<notin> set (vary v) \<longrightarrow>
                 (\<exists>c. generation
                        (snd (run_task new_URL net' (CachePut cacheName request (clone v))
                               (caches_open cacheName st))) cacheName = Some c
                     \<and> cache_match c request = Some v))
            \<and> (\<not> ((protocol (new_URL (url request)) = ''http:''
                      \<or> protocol (new_URL (url request)) = ''https:'')
                    \<and> ''*'' \<notin> set (vary v)) \<longrightarrow>
                 run_task new_URL net' (CachePut cacheName request (clone v))
                   (caches_open cacheName st) = ([], caches_open cacheName st)))
       \<and> (status v \<noteq> 200 \<longrightarrow> cacheFirstStrategy net request cacheName st = (Some v, [], st))"
proof -
  let ?accepted = "(protocol (new_URL (url request)) = ''http:''
                     \<or> protocol (new_URL (url request)) = ''https:'') \<and> ''*'' \<notin> set (vary v)"
  let ?after = "run_task new_URL net' (CachePut cacheName request (clone v)) (caches_open cacheName st)"
  from assms(2) have miss: "caches_match st request = None"
    by (simp add: caches_match_None_iff)
  have other: "cacheFirstStrategy net request cacheName st = (Some v, [], st)"
    if "status v \<noteq> 200"
    using that miss assms(3) by (simp add: cacheFirstStrategy_def)
  have ret: "cacheFirstStrategy net request cacheName st
           = (Some v, [CachePut cacheName request (clone v)], caches_open cacheName st)"
    if "status v = 200"
    using that miss assms(3) by (simp add: cacheFirstStrategy_def)
  have absent: "caches_match (caches_open cacheName st) request = None"
    using miss by (simp add: caches_match_open)
  obtain c0 where c0: "generation (caches_open cacheName st) cacheName = Some c0"
    using generation_open [of cacheName st] by auto
  have stored: "\<exists>c. generation (snd ?after) cacheName = Some c \<and> cache_match c request = Some v"
    if "status v = 200" and "?accepted"
  proof -
    have "generation (snd ?after) cacheName = Some (cache_store c0 request v)"
      using assms(1) c0 that
      by (auto simp: on_cache_def cache_put_def clone_def generation_with_cache)
    moreover have "cache_match (cache_store c0 request v) request = Some v"
      using assms(1) by (rule cache_match_store)
    ultimately show ?thesis by blast
  qed
  have rejected: "?after = ([], caches_open cacheName st)" if "\<not> ?accepted"
    using that by (auto simp: on_cache_def cache_put_def clone_def)
  from ret absent stored rejected other show ?thesis by blast
qed

theorem miss_write_is_pending_witness:
  "cacheFirstStrategy (always 200) (Request ''./app.js'') CACHE_NAME []
     = (Some (Response ''fresh'' 200 []),
        [CachePut CACHE_NAME (Request ''./app.js'') (Response ''fresh'' 200 [])],
        [(CACHE_NAME, [])])
   \<and> caches_match [(CACHE_NAME, [])] (Request ''./app.js'') = None
   \<and> protocol (example_URL (url (Request ''./app.js''))) = ''https:''
   \<and> ''*'' \<notin> set (vary (Response ''fresh'' 200 []))
   \<and> generation (snd (run_task example_URL offline
          (CachePut CACHE_NAME (Request ''./app.js'') (Response ''fresh'' 200 []))
          [(CACHE_NAME, [])])) CACHE_NAME
     = Some [(Request ''./app.js'', Response ''fresh'' 200 [])]"
  using miss_write_is_pending
    [where request = "Request ''./app.js''" and st = "[]" and net = "always 200"
       and v = "Response ''fresh'' 200 []" and cacheName = CACHE_NAME and net' = offline
       and new_URL = example_URL]
  by (simp add: ex_defs)

text \<open>
  C3 as stated fails: when the strategy returns on the miss path the chosen cache is
  still empty, and a response with the success status 201 is not written at all.
\<close>

theorem miss_entry_absent_at_return_counterexample:
  "cacheFirstStrategy (always 200) (Request ''./app.js'') CACHE_NAME [(CACHE_NAME, [])]
     = (Some (Response ''fresh'' 200 []),
        [CachePut CACHE_NAME (Request ''./app.js'') (Response ''fresh'' 200 [])],
        [(CACHE_NAME, [])])
   \<and> cache_match [] (Request ''./app.js'') = None
   \<and> ok (Response ''fresh'' 201 [])
   \<and> cacheFirstStrategy (always 201) (Request ''./app.js'') CACHE_NAME [(CACHE_NAME, [])]
     = (Some (Response ''fresh'' 201 []), [], [(CACHE_NAME, [])])"
  by (simp add: ex_defs cacheFirstStrategy_def)

subsection \<open>Activation\<close>

text \<open>
  Claim C4. After the activate listener every cache name that is still enumerable is one
  of the three configured names, and every cache with one of these names is kept with
  its entries: the storage is the former one restricted to the three names.
\<close>

theorem activate_keeps_exactly_recognized:
  "(\<forall>n\<in>set (caches_keys (activate_listener st)).
       n = CACHE_NAME \<or> n = EXTERNAL_CACHE_NAME \<or> n = DATA_CACHE_NAME)
   \<and> (\<forall>g\<in>set st. recognized (fst g) \<longrightarrow> g \<in> set (activate_listener st))
   \<and> activate_listener st = filter (\<lambda>g. recognized (fst g)) st"
  by (auto simp: activate_listener_filter caches_keys_def recognized_def)

theorem activate_keeps_exactly_recognized_witness:
  "caches_keys (activate_listener
      [(''behavana-v0.9.0'', [(Request ''./'', Response ''old'' 200 ''OK'')]),
       (''behavana-v1.0.0'', [(Request ''./'', Response ''new'' 200 ''OK'')]),
       (''behavana-data-v1'', [])])
   = [''behavana-v1.0.0'', ''behavana-data-v1'']
   \<and> (''behavana-v1.0.0'', [(Request ''./'', Response ''new'' 200 ''OK'')])
       \<in> set (activate_listener
      [(''behavana-v0.9.0'', [(Request ''./'', Response ''old'' 200 ''OK'')]),
       (''behavana-v1.0.0'', [(Request ''./'', Response ''new'' 200 ''OK'')]),
       (''behavana-data-v1'', [])])"
  using activate_keeps_exactly_recognized
    [of "[(''behavana-v0.9.0'', [(Request ''./'', Response ''old'' 200 ''OK'')]),
       (''behavana-v1.0.0'', [(Request ''./'', Response ''new'' 200 ''OK'')]),
       (''behavana-data-v1'', [])]"]
  by (simp add: recognized_def CACHE_NAME_def EXTERNAL_CACHE_NAME_def DATA_CACHE_NAME_def
      caches_keys_def)

subsection \<open>Requests that are not intercepted\<close>

text \<open>
  Claim C5. For a request whose method is not GET the fetch listener does not respond:
  the outcome does not depend on the storage or the network, no task is started and the
  storage is unchanged.
\<close>

theorem non_get_not_intercepted:
  "method request \<noteq> ''GET'' \<Longrightarrow>
   fetch_listener new_URL net request st = (NotIntercepted, [], st)"
  by (simp add: fetch_listener_def)

theorem non_get_not_intercepted_witness:
  "fetch_listener example_URL (always 200) \<lparr>method = ''POST'', url = ''./api'', destination = []\<rparr>
     [(CACHE_NAME, [(Request ''./api'', Response ''cached'' 200 ''OK'')])]
   = (NotIntercepted, [], [(CACHE_NAME, [(Request ''./api'', Response ''cached'' 200 ''OK'')])])"
  using non_get_not_intercepted
    [where request = "\<lparr>method = ''POST'', url = ''./api'', destination = []\<rparr>"
       and new_URL = example_URL and net = "always 200"
       and st = "[(CACHE_NAME, [(Request ''./api'', Response ''cached'' 200 ''OK'')])]"]
  by simp

subsection \<open>The invariant of the stored entries\<close>

text \<open>
  Claim C6. Every event (install, activate, fetch, message, completion of a pending
  refresh or write) preserves the invariant that every stored entry has a GET request as
  its key and a response with a status from 200 to 299, and that every pending write
  carries a GET request and a response of status 200. Hence it holds in every state
  reached from the empty storage.
\<close>

theorem entries_get_and_ok_preserved:
  "(sw_ok s \<longrightarrow> sw_ok (step new_URL e s))
   \<and> sw_ok (fold (step new_URL) es \<lparr>caches = [], pending = []\<rparr>)"
proof -
  have "sw_ok s' \<Longrightarrow> sw_ok (fold (step new_URL) es s')" for s'
    by (induction es arbitrary: s') (auto intro: step_ok)
  moreover have "sw_ok \<lparr>caches = [], pending = []\<rparr>"
    by (simp add: sw_ok_def storage_ok_def)
  ultimately show ?thesis
    by (blast intro: step_ok)
qed

theorem entries_get_and_ok_preserved_witness:
  "sw_ok \<lparr>caches = [], pending = []\<rparr>
   \<and> sw_ok (step example_URL (Fetch (always 200) font_request) \<lparr>caches = [], pending = []\<rparr>)
   \<and> step example_URL (Fetch (always 200) font_request) \<lparr>caches = [], pending = []\<rparr>
     = \<lparr>caches = [(EXTERNAL_CACHE_NAME, [])],
        pending = [CachePut EXTERNAL_CACHE_NAME font_request (Response ''fresh'' 200 [])]\<rparr>"
  using entries_get_and_ok_preserved
    [where s = "\<lparr>caches = [], pending = []\<rparr>" and new_URL = example_URL
       and e = "Fetch (always 200) font_request"]
  by (simp add: sw_ok_def storage_ok_def ex_defs fetch_listener_def respondWith_def
      cacheFirstStrategy_def)

subsection \<open>Install\<close>

text \<open>
  Claim C7. When the primary \<^verbatim>\<open>addAll\<close> rejects, the install promise rejects with that
  error, \<^verbatim>\<open>skipWaiting\<close> is not called and the worker never activates. When the primary
  \<^verbatim>\<open>addAll\<close> succeeds, the install promise resolves and \<^verbatim>\<open>skipWaiting\<close> is called,
  whether the external \<^verbatim>\<open>addAll\<close> rejects or succeeds.
\<close>

theorem install_failure_policy:
  "(cache_addAll net c CACHE_URLS = Inl e \<longrightarrow>
      waitUntil (install_listener net st) = Inl e
      \<and> \<not> skipWaiting (install_listener net st)
      \<and> after_install (install_listener net st) = Redundant)
   \<and> (\<not> isl (cache_addAll net c CACHE_URLS) \<and> isl (cache_addAll net d EXTERNAL_URLS) \<longrightarrow>
      waitUntil (install_listener net st) = Inr ()
      \<and> skipWaiting (install_listener net st)
      \<and> after_install (install_listener net st) = Activating)
   \<and> (\<not> isl (cache_addAll net c CACHE_URLS) \<and> \<not> isl (cache_addAll net d EXTERNAL_URLS) \<longrightarrow>
      waitUntil (install_listener net st) = Inr ()
      \<and> skipWaiting (install_listener net st)
      \<and> after_install (install_listener net st) = Activating)"
  using install_primary [of net st]
  by (cases e) (auto simp: cache_addAll_def after_install_def split: option.splits)

theorem install_failure_policy_witness:
  "cache_addAll offline [] CACHE_URLS = Inl TypeError
   \<and> waitUntil (install_listener offline []) = Inl TypeError
   \<and> \<not> skipWaiting (install_listener offline [])
   \<and> after_install (install_listener offline []) = Redundant
   \<and> \<not> isl (cache_addAll local_only [] CACHE_URLS)
   \<and> isl (cache_addAll local_only [] EXTERNAL_URLS)
   \<and> waitUntil (install_listener local_only []) = Inr ()
   \<and> after_install (install_listener local_only []) = Activating"
  using
    install_failure_policy
      [where net = offline and c = "[]" and d = "[]" and st = "[]" and e = TypeError]
    install_failure_policy
      [where net = local_only and c = "[]" and d = "[]" and st = "[]" and e = TypeError]
  by (simp add: cache_addAll_def offline_def local_only_def CACHE_URLS_def EXTERNAL_URLS_def
      Request_def Response_def ok_def)

subsection \<open>Offline fallbacks\<close>

text \<open>
  Claim C8, as the code has it. For a navigation request found in no cache whose fetch
  rejects, the strategy resolves with \<^verbatim>\<open>caches.match('./index.html')\<close>: the response stored
  for the offline document in the first cache that holds it, equal to the stored copy in
  status, status text and body; and with no response when no cache holds it.
\<close>

theorem offline_miss_navigation:
  assumes "destination request = ''document''"
    and "\<forall>g\<in>set st. cache_match (snd g) request = None"
    and "net request = None"
  shows "(st = pre @ (n, c) # post
          \<and> (\<forall>g\<in>set pre. cache_match (snd g) (Request ''./index.html'') = None)
          \<and> cache_match c (Request ''./index.html'') = Some doc
          \<longrightarrow> cacheFirstStrategy net request cacheName st = (Some doc, [], st))
       \<and> ((\<forall>g\<in>set st. cache_match (snd g) (Request ''./index.html'') = None)
          \<longrightarrow> cacheFirstStrategy net request cacheName st = (None, [], st))"
proof -
  from assms(2) have miss: "caches_match st request = None"
    by (simp add: caches_match_None_iff)
  with assms(1,3) have
    "cacheFirstStrategy net request cacheName st = (caches_match st (Request ''./index.html''), [], st)"
    by (simp add: cacheFirstStrategy_def)
  then show ?thesis
    using caches_match_first [of pre "Request ''./index.html''" c doc n post]
      caches_match_None_iff [of st "Request ''./index.html''"]
    by auto
qed

theorem offline_miss_navigation_witness:
  "cacheFirstStrategy offline page_request CACHE_NAME
     [(CACHE_NAME, [(Request ''./index.html'', Response ''<html>'' 200 ''OK'')])]
   = (Some (Response ''<html>'' 200 ''OK''), [],
      [(CACHE_NAME, [(Request ''./index.html'', Response ''<html>'' 200 ''OK'')])])"
  using offline_miss_navigation
    [where request = page_request and net = offline and cacheName = CACHE_NAME
       and st = "[(CACHE_NAME, [(Request ''./index.html'', Response ''<html>'' 200 ''OK'')])]"
       and pre = "[]" and n = CACHE_NAME and post = "[]"
       and c = "[(Request ''./index.html'', Response ''<html>'' 200 ''OK'')]"
       and doc = "Response ''<html>'' 200 ''OK''"]
  by (simp add: ex_defs)

text \<open>
  C8 as stated, for every such navigation request, fails when the offline document is
  not stored, as after a CLEAR_CACHE message: the strategy resolves with \<^verbatim>\<open>undefined\<close>.
\<close>

theorem offline_document_missing_counterexample:
  "snd (message_listener (Some ''CLEAR_CACHE'')
          [(CACHE_NAME, [(Request ''./index.html'', Response ''<html>'' 200 ''OK'')])]) = []
   \<and> destination page_request = ''document''
   \<and> cacheFirstStrategy offline page_request CACHE_NAME [] = (None, [], [])"
  by (simp add: ex_defs message_listener_def cacheFirstStrategy_def)

text \<open>
  Claim C9. For a request that is not a navigation, found in no cache, whose fetch
  rejects, the strategy returns a response with an empty body, status 408 and status
  text \<^verbatim>\<open>Offline\<close>.
\<close>

theorem offline_miss_other_resource:
  assumes "destination request \<noteq> ''document''"
    and "\<forall>g\<in>set st. cache_match (snd g) request = None"
    and "net request = None"
  shows "cacheFirstStrategy net request cacheName st
         = (Some \<lparr>status = 408, statusText = ''Offline'', body = [], vary = []\<rparr>, [], st)"
proof -
  from assms(2) have "caches_match st request = None"
    by (simp add: caches_match_None_iff)
  with assms(1,3) show ?thesis
    by (simp add: cacheFirstStrategy_def Response_def)
qed

theorem offline_miss_other_resource_witness:
  "cacheFirstStrategy offline font_request EXTERNAL_CACHE_NAME
     [(CACHE_NAME, [(Request ''./index.html'', Response ''<html>'' 200 ''OK'')])]
   = (Some \<lparr>status = 408, statusText = ''Offline'', body = [], vary = []\<rparr>, [],
      [(CACHE_NAME, [(Request ''./index.html'', Response ''<html>'' 200 ''OK'')])])"
  using offline_miss_other_resource
    [where request = font_request and net = offline and cacheName = EXTERNAL_CACHE_NAME
       and st = "[(CACHE_NAME, [(Request ''./index.html'', Response ''<html>'' 200 ''OK'')])]"]
  by (simp add: ex_defs)

subsection \<open>Clearing the caches\<close>

text \<open>
  Claim C10. A CLEAR_CACHE message deletes every cache, whatever its name. A request
  handled next, with a fetch that rejects, takes the fallback: the lookup of the offline
  document (which finds nothing) for a navigation, the 408 response otherwise.
\<close>

theorem clear_cache_then_fallback:
  "snd (message_listener (Some ''CLEAR_CACHE'') st) = []
   \<and> (net request = None \<longrightarrow>
        cacheFirstStrategy net request cacheName (snd (message_listener (Some ''CLEAR_CACHE'') st))
        = (if destination request = ''document'' then None
           else Some (Response [] 408 ''Offline''), [], []))"
  by (simp add: clear_all cacheFirstStrategy_def)

theorem clear_cache_then_fallback_witness:
  "cacheFirstStrategy offline (Request ''./index.html'') CACHE_NAME
     (snd (message_listener (Some ''CLEAR_CACHE'')
        [(CACHE_NAME, [(Request ''./index.html'', Response ''<html>'' 200 ''OK'')]),
         (EXTERNAL_CACHE_NAME, []), (DATA_CACHE_NAME, [])]))
   = (Some (Response [] 408 ''Offline''), [], [])"
  using clear_cache_then_fallback
    [where net = offline and request = "Request ''./index.html''" and cacheName = CACHE_NAME
       and st = "[(CACHE_NAME, [(Request ''./index.html'', Response ''<html>'' 200 ''OK'')]),
         (EXTERNAL_CACHE_NAME, []), (DATA_CACHE_NAME, [])]"]
  by (simp add: ex_defs message_listener_def cacheFirstStrategy_def)

end
